theory Spec2Isabelle
  imports Complex_Main
begin

section \<open>Strings\<close>

text \<open>
  A Python \<open>str\<close> is modelled as a \<open>string\<close> whose characters stand for the code points
  below 256. The helpers below are the \<open>str\<close> methods and the \<open>posixpath\<close> functions that
  \<open>backend/security.py\<close> and \<open>backend/ssh_manager.py\<close> call.
\<close>

definition startswith :: "string \<Rightarrow> string \<Rightarrow> bool" where
  "startswith s p = (take (length p) s = p)"

definition endswith :: "string \<Rightarrow> string \<Rightarrow> bool" where
  "endswith s p = (length p \<le> length s \<and> drop (length s - length p) s = p)"

text \<open>\<open>p in s\<close> for two strings: \<open>p\<close> occurs in \<open>s\<close> as a contiguous substring.\<close>

fun contains :: "string \<Rightarrow> string \<Rightarrow> bool" where
  "contains [] p = (p = [])"
| "contains (c # cs) p = (startswith (c # cs) p \<or> contains cs p)"

text \<open>
  \<open>str.isspace\<close> on one character, for the code points below 256: TAB, LF, VT, FF, CR,
  FS, GS, RS, US, SPACE, NEL and NBSP.
\<close>

definition isspace :: "char \<Rightarrow> bool" where
  "isspace c = ((of_char c :: nat) \<in>
     set [0x09, 0x0A, 0x0B, 0x0C, 0x0D, 0x1C, 0x1D, 0x1E, 0x1F, 0x20, 0x85, 0xA0])"

definition lstrip :: "string \<Rightarrow> string" where
  "lstrip s = dropWhile isspace s"

definition rstrip :: "string \<Rightarrow> string" where
  "rstrip s = rev (dropWhile isspace (rev s))"

definition strip :: "string \<Rightarrow> string" where
  "strip s = rstrip (lstrip s)"

text \<open>
  \<open>s.split()\<close> with no separator: the maximal runs of non-whitespace characters, in
  order. The first argument is the word being collected.
\<close>

fun split_from :: "string \<Rightarrow> string \<Rightarrow> string list" where
  "split_from w [] = (if w = [] then [] else [w])"
| "split_from w (c # cs) =
     (if isspace c then (if w = [] then split_from [] cs else w # split_from [] cs)
      else split_from (w @ [c]) cs)"

definition split_ws :: "string \<Rightarrow> string list" where
  "split_ws s = split_from [] s"

text \<open>\<open>s.split(sep)\<close> with a one-character separator: never an empty list.\<close>

fun split_on :: "char \<Rightarrow> string \<Rightarrow> string list" where
  "split_on sep [] = [[]]"
| "split_on sep (c # cs) =
     (if c = sep then [] # split_on sep cs
      else (case split_on sep cs of
              [] \<Rightarrow> [[c]]
            | w # ws \<Rightarrow> (c # w) # ws))"

text \<open>\<open>sep.join(parts)\<close>.\<close>

fun join :: "string \<Rightarrow> string list \<Rightarrow> string" where
  "join sep [] = []"
| "join sep [p] = p"
| "join sep (p # q # ps) = p @ sep @ join sep (q # ps)"

text \<open>
  Case folding of \<open>re.IGNORECASE\<close>. Every pattern of the validator is written in
  lower-case ASCII, and below code point 256 only the letters \<open>A\<close> to \<open>Z\<close> fold onto an
  ASCII letter.
\<close>

definition lower_char :: "char \<Rightarrow> char" where
  "lower_char c =
     (case map_of (zip ''ABCDEFGHIJKLMNOPQRSTUVWXYZ'' ''abcdefghijklmnopqrstuvwxyz'') c of
        None \<Rightarrow> c
      | Some l \<Rightarrow> l)"

definition lower :: "string \<Rightarrow> string" where
  "lower s = map lower_char s"

section \<open>posixpath\<close>

text \<open>
  \<open>os.path.normpath\<close> and \<open>os.path.abspath\<close> on a POSIX host, after CPython's
  \<open>posixpath.py\<close>. The current working directory that \<open>abspath\<close> reads from the process is
  the parameter \<open>cwd\<close>.
\<close>

definition initial_slashes :: "string \<Rightarrow> nat" where
  "initial_slashes path =
     (if startswith path ''/'' then
        (if startswith path ''//'' \<and> \<not> startswith path ''///'' then 2 else 1)
      else 0)"

text \<open>One iteration of \<open>for comp in comps\<close> in \<open>normpath\<close>; \<open>part\<close> is the source's \<open>comp\<close>.\<close>

definition norm_step :: "nat \<Rightarrow> string list \<Rightarrow> string \<Rightarrow> string list" where
  "norm_step slashes new_comps part =
     (if part = [] \<or> part = ''.'' then new_comps
      else if part \<noteq> ''..'' \<or> (slashes = 0 \<and> new_comps = [])
              \<or> (new_comps \<noteq> [] \<and> last new_comps = ''..'')
           then new_comps @ [part]
      else if new_comps \<noteq> [] then butlast new_comps
      else new_comps)"

definition normpath :: "string \<Rightarrow> string" where
  "normpath path =
     (if path = [] then ''.''
      else
        let slashes = initial_slashes path;
            comps = foldl (norm_step slashes) [] (split_on CHR ''/'' path);
            joined = join ''/'' comps;
            res = (if slashes \<noteq> 0 then replicate slashes CHR ''/'' @ joined else joined)
        in if res = [] then ''.'' else res)"

text \<open>\<open>posixpath.join(a, b)\<close> with two arguments.\<close>

definition path_join :: "string \<Rightarrow> string \<Rightarrow> string" where
  "path_join a b =
     (if startswith b ''/'' then b
      else if a = [] \<or> endswith a ''/'' then a @ b
      else a @ ''/'' @ b)"

definition abspath :: "string \<Rightarrow> string \<Rightarrow> string" where
  "abspath cwd path =
     normpath (if startswith path ''/'' then path else path_join cwd path)"

section \<open>Security validator\<close>

text \<open>
  \<open>SecurityValidator.DANGEROUS_PATTERNS\<close>. Each regular expression of the list is a
  literal, searched anywhere in the text or, with a trailing \<open>$\<close>, anchored at its end.
\<close>

datatype pattern = Anywhere string | AtEnd string

definition DANGEROUS_PATTERNS :: "pattern list" where
  "DANGEROUS_PATTERNS =
     [Anywhere ''..'',
      Anywhere ''/etc/shadow'',
      Anywhere ''/etc/passwd'',
      Anywhere ''/root/.ssh'',
      AtEnd ''.pem'',
      AtEnd ''.key'',
      Anywhere ''/proc/'',
      Anywhere ''/sys/'']"

text \<open>
  \<open>re.search(pattern, text, re.IGNORECASE)\<close> for these patterns. Without
  \<open>re.MULTILINE\<close>, \<open>$\<close> matches at the end of the text and also just before a newline that
  ends the text.
\<close>

fun re_search :: "pattern \<Rightarrow> string \<Rightarrow> bool" where
  "re_search (Anywhere lit) text = contains (lower text) lit"
| "re_search (AtEnd lit) text =
     (endswith (lower text) lit \<or> endswith (lower text) (lit @ [CHR 0x0A]))"

definition ALLOWED_COMMANDS :: "string list" where
  "ALLOWED_COMMANDS = [''tail'', ''cat'', ''head'', ''ls'', ''find'']"

definition validate_path :: "string \<Rightarrow> string \<Rightarrow> string list \<Rightarrow> bool" where
  "validate_path cwd path allowed_paths =
     (let normalized_path = normpath path;
          resolved_path = abspath cwd normalized_path
      in if list_ex (\<lambda>pat. re_search pat resolved_path) DANGEROUS_PATTERNS then False
         else if allowed_paths = [] then False
         else list_ex (\<lambda>allowed. startswith resolved_path (abspath cwd (normpath allowed)))
                allowed_paths)"

definition dangerous_chars :: "char list" where
  "dangerous_chars =
     [CHR '';'', CHR ''|'', CHR ''&'', CHR ''$'', CHR 0x60, CHR ''>'', CHR ''<'',
      CHR 0x0A, CHR 0x0D]"

text \<open>
  \<open>command.strip().split()[0] if command.strip() else ""\<close>. The index cannot fail: a
  non-empty stripped command has a first word (lemma \<open>split_strip_nonempty\<close>).
\<close>

definition cmd_name :: "string \<Rightarrow> string" where
  "cmd_name command =
     (if strip command \<noteq> [] then
        (case split_ws (strip command) of [] \<Rightarrow> [] | w # _ \<Rightarrow> w)
      else [])"

definition validate_command :: "string \<Rightarrow> bool" where
  "validate_command command =
     (if cmd_name command \<notin> set ALLOWED_COMMANDS then False
      else if list_ex (\<lambda>c. c \<in> set command) dangerous_chars then False
      else True)"

definition check_file_size :: "int \<Rightarrow> int \<Rightarrow> bool" where
  "check_file_size sz max_size = (0 \<le> sz \<and> sz \<le> max_size)"

section \<open>ANSI stripping\<close>

text \<open>
  \<open>ANSI_ESCAPE_PATTERN = (\x1B\[[0-?]*[ -/]*[@-~]|\[[0-9;]+m)\<close>, the same in
  \<open>backend/ssh_manager.py\<close> and \<open>backend/log_core.py\<close>. The character classes of each
  alternative are pairwise disjoint, so the greedy repetitions never give a character
  back: a match at a position is decided by the longest runs. Each matcher returns the
  length of the match at the head of the text.
\<close>

definition in_range :: "nat \<Rightarrow> nat \<Rightarrow> char \<Rightarrow> bool" where
  "in_range lo hi c = (lo \<le> of_char c \<and> (of_char c :: nat) \<le> hi)"

definition is_param :: "char \<Rightarrow> bool" where
  "is_param c = in_range 0x30 0x3F c"

definition is_inter :: "char \<Rightarrow> bool" where
  "is_inter c = in_range 0x20 0x2F c"

definition is_final :: "char \<Rightarrow> bool" where
  "is_final c = in_range 0x40 0x7E c"

definition is_digit :: "char \<Rightarrow> bool" where
  "is_digit c = in_range 0x30 0x39 c"

definition is_digit_semi :: "char \<Rightarrow> bool" where
  "is_digit_semi c = (is_digit c \<or> c = CHR '';'')"

text \<open>First alternative: \<open>\x1B\[[0-?]*[ -/]*[@-~]\<close>.\<close>

definition match_csi :: "string \<Rightarrow> nat option" where
  "match_csi s =
     (case s of
        e # b # rest \<Rightarrow>
          if e = CHR 0x1B \<and> b = CHR ''['' then
            (let params = takeWhile is_param rest;
                 rest1 = dropWhile is_param rest;
                 inters = takeWhile is_inter rest1
             in case dropWhile is_inter rest1 of
                  [] \<Rightarrow> None
                | f # _ \<Rightarrow>
                    if is_final f then Some (3 + length params + length inters) else None)
          else None
      | _ \<Rightarrow> None)"

text \<open>Second alternative: \<open>\[[0-9;]+m\<close>, with no escape character in front.\<close>

definition match_bare :: "string \<Rightarrow> nat option" where
  "match_bare s =
     (case s of
        [] \<Rightarrow> None
      | b # rest \<Rightarrow>
          if b = CHR ''['' \<and> takeWhile is_digit_semi rest \<noteq> [] then
            (case dropWhile is_digit_semi rest of
               [] \<Rightarrow> None
             | m # _ \<Rightarrow>
                 if m = CHR ''m'' then Some (2 + length (takeWhile is_digit_semi rest))
                 else None)
          else None)"

definition match_ansi :: "string \<Rightarrow> nat option" where
  "match_ansi s = (case match_csi s of Some n \<Rightarrow> Some n | None \<Rightarrow> match_bare s)"

text \<open>
  \<open>ANSI_ESCAPE_PATTERN.sub('', text)\<close>: scan from the left, drop each match, keep every
  other character. No match is empty.
\<close>

function strip_ansi_codes :: "string \<Rightarrow> string" where
  "strip_ansi_codes [] = []"
| "strip_ansi_codes (c # cs) =
     (case match_ansi (c # cs) of
        None \<Rightarrow> c # strip_ansi_codes cs
      | Some n \<Rightarrow> strip_ansi_codes (drop n (c # cs)))"
  by pat_completeness auto
termination
  by (relation "measure length")
     (auto simp: match_ansi_def match_csi_def match_bare_def Let_def
           split: option.splits list.splits if_splits)

text \<open>
  A text that begins an escape sequence of the first alternative and is not yet a whole
  one: ESC alone, or ESC and \<open>[\<close> followed by parameter characters and then
  intermediate characters. \<open>open_csi\<close> says that a text ends in such a beginning, so
  that a \<open>[\<close> put after it would be taken as the final character of that sequence.
\<close>

definition csi_begun :: "string \<Rightarrow> bool" where
  "csi_begun s =
     (case s of
        [] \<Rightarrow> False
      | e # r \<Rightarrow>
          e = CHR 0x1B \<and>
          (case r of
             [] \<Rightarrow> True
           | b # params \<Rightarrow>
               b = CHR ''['' \<and> dropWhile is_inter (dropWhile is_param params) = []))"

fun open_csi :: "string \<Rightarrow> bool" where
  "open_csi [] = False"
| "open_csi (c # cs) = (csi_begun (c # cs) \<or> open_csi cs)"

section \<open>Integers and text\<close>

text \<open>\<open>str(n)\<close> for an integer.\<close>

fun str_nat :: "nat \<Rightarrow> string" where
  "str_nat n =
     (if n < 10 then [''0123456789'' ! n]
      else str_nat (n div 10) @ [''0123456789'' ! (n mod 10)])"

declare str_nat.simps [simp del]

definition str_int :: "int \<Rightarrow> string" where
  "str_int i = (if i < 0 then ''-'' @ str_nat (nat (- i)) else str_nat (nat i))"

text \<open>
  \<open>repr(text)\<close> for a string of code points below 256. The quote is the double quote
  when the text holds a single quote and no double quote, the single quote otherwise.
  The quote and the backslash are escaped, TAB, LF and CR are written \<open>\t\<close>, \<open>\n\<close>,
  \<open>\r\<close>, and every other character that is not printable (below SPACE, DEL to NBSP,
  the soft hyphen) is written \<open>\xhh\<close>.
\<close>

definition hex2 :: "nat \<Rightarrow> string" where
  "hex2 n = [''0123456789abcdef'' ! (n div 16), ''0123456789abcdef'' ! (n mod 16)]"

definition repr_char :: "char \<Rightarrow> char \<Rightarrow> string" where
  "repr_char quote c =
     (let n = (of_char c :: nat)
      in if c = quote \<or> c = CHR 0x5C then [CHR 0x5C, c]
         else if c = CHR 0x09 then [CHR 0x5C, CHR ''t'']
         else if c = CHR 0x0A then [CHR 0x5C, CHR ''n'']
         else if c = CHR 0x0D then [CHR 0x5C, CHR ''r'']
         else if n < 0x20 \<or> (0x7F \<le> n \<and> n \<le> 0xA0) \<or> n = 0xAD
              then [CHR 0x5C, CHR ''x''] @ hex2 n
         else [c])"

definition repr :: "string \<Rightarrow> string" where
  "repr text =
     (let quote = (if CHR 0x27 \<in> set text \<and> CHR 0x22 \<notin> set text then CHR 0x22
                   else CHR 0x27)
      in [quote] @ concat (map (repr_char quote) text) @ [quote])"

text \<open>
  Exceptions that reach a handler of the remote reader: the two \<open>ValueError\<close>s of
  \<open>int()\<close>, for a text that is no integer literal and for a literal of more than 4300
  digits, and any other exception, such as one of the SSH client, with its message.
  \<open>str_exn\<close> is \<open>str(e)\<close>; \<open>int()\<close> formats the literal with \<open>%.200R\<close>, at most 200
  characters of its \<open>repr\<close>.
\<close>

datatype exn = ValueError string | DigitLimit nat | SSHError string

fun str_exn :: "exn \<Rightarrow> string" where
  "str_exn (ValueError lit) =
     ''invalid literal for int() with base 10: '' @ take 200 (repr lit)"
| "str_exn (DigitLimit n) =
     ''Exceeds the limit (4300 digits) for integer string conversion: value has ''
     @ str_nat n @ '' digits; use sys.set_int_max_str_digits() to increase the limit''"
| "str_exn (SSHError msg) = msg"

definition digits_value :: "string \<Rightarrow> nat" where
  "digits_value ds = foldl (\<lambda>acc d. 10 * acc + (of_char d - 48)) 0 ds"

text \<open>
  The scan of \<open>int()\<close> over digits and underscores: the previous character, the digits
  counted so far and the text. It stops at the first other character and gives the
  count, the rest and the last character scanned; two underscores in a row are an
  error, the value \<open>None\<close>.
\<close>

fun scan_digits :: "char \<Rightarrow> nat \<Rightarrow> string \<Rightarrow> (nat \<times> string \<times> char) option" where
  "scan_digits prev n [] = Some (n, [], prev)"
| "scan_digits prev n (c # cs) =
     (if c = CHR ''_'' then (if prev = CHR ''_'' then None else scan_digits c n cs)
      else if is_digit c then scan_digits c (Suc n) cs
      else Some (n, c # cs, prev))"

text \<open>
  \<open>int(text)\<close> in base 10: an optional sign, then digits with single underscores
  between them. A literal of more than 4300 digits is refused before the rest of the
  text is looked at.
\<close>

definition py_int :: "string \<Rightarrow> exn + int" where
  "py_int text =
     (let t = strip text;
          neg = startswith t ''-'' \<and> t \<noteq> [];
          body = (if t \<noteq> [] \<and> (hd t = CHR ''-'' \<or> hd t = CHR ''+'') then tl t else t)
      in if startswith body ''_'' \<and> body \<noteq> [] then Inl (ValueError text)
         else
           (case scan_digits (CHR 0x00) 0 body of
              None \<Rightarrow> Inl (ValueError text)
            | Some (n, rest, prev) \<Rightarrow>
                if prev = CHR ''_'' then Inl (ValueError text)
                else if n > 4300 then Inl (DigitLimit n)
                else if rest \<noteq> [] \<or> n = 0 then Inl (ValueError text)
                else Inr (if neg then - int (digits_value (filter is_digit body))
                          else int (digits_value (filter is_digit body)))))"

section \<open>Connection pool\<close>

text \<open>
  A server configuration is a dictionary read from the settings file. The record holds
  the keys that the pool and the remote reader look up; a key that may be absent is an
  option, and the reader's \<open>get\<close> supplies the default. \<open>idle_timeout\<close> is the
  \<open>idleTimeoutSeconds\<close> of the specification's server profile: no function of the source
  reads such a key.
\<close>

record server_config =
  host :: string
  port :: "nat option"
  allowed_paths :: "string list option"
  max_file_size :: "int option"
  idle_timeout :: real

text \<open>
  One entry of \<open>SSHConnectionPool.connections\<close>. The client object is a number that
  identifies it; \<open>last_used\<close> is a reading of \<open>time.time()\<close>, taken as a real number.
\<close>

record conn_info =
  client :: nat
  last_used :: real
  config :: server_config

text \<open>
  The pool: its two constructor arguments, the dictionary \<open>connections\<close> in insertion
  order (keys are server ids, each at most once), and the clients on which \<open>close()\<close> has
  been called, in call order.
\<close>

record pool =
  max_connections :: nat
  timeout :: real
  connections :: "(string \<times> conn_info) list"
  closed :: "nat list"

definition server_id :: "server_config \<Rightarrow> string" where
  "server_id cfg = host cfg @ '':'' @ str_nat (case port cfg of None \<Rightarrow> 22 | Some p \<Rightarrow> p)"

text \<open>The first loop of \<open>cleanup_idle_connections\<close>: the keys collected in \<open>to_remove\<close>.\<close>

definition to_remove :: "pool \<Rightarrow> real \<Rightarrow> string list" where
  "to_remove p current_time =
     map fst (filter (\<lambda>(sid, info). current_time - last_used info > timeout p)
                (connections p))"

text \<open>
  The second loop: close the client of each collected key and delete the key. A lookup
  of a key that is not in the dictionary raises \<open>KeyError\<close>, the value \<open>None\<close>.
\<close>

fun close_and_delete :: "string list \<Rightarrow> pool \<Rightarrow> pool option" where
  "close_and_delete [] p = Some p"
| "close_and_delete (sid # sids) p =
     (case map_of (connections p) sid of
        None \<Rightarrow> None
      | Some info \<Rightarrow>
          close_and_delete sids
            (p\<lparr>closed := closed p @ [client info],
               connections := filter (\<lambda>(k, _). k \<noteq> sid) (connections p)\<rparr>))"

definition cleanup_idle_connections :: "pool \<Rightarrow> real \<Rightarrow> pool option" where
  "cleanup_idle_connections p current_time = close_and_delete (to_remove p current_time) p"

text \<open>
  The specification's \<open>reapIdle\<close>, in its own words: remove and close exactly the entries
  idle longer than their profile's idle timeout, leave the others unchanged.
\<close>

definition idle_by_profile :: "real \<Rightarrow> string \<times> conn_info \<Rightarrow> bool" where
  "idle_by_profile current_time entry =
     (current_time - last_used (snd entry) > idle_timeout (config (snd entry)))"

definition reapIdle_spec :: "pool \<Rightarrow> real \<Rightarrow> pool" where
  "reapIdle_spec p current_time =
     p\<lparr>closed := closed p @ map (client \<circ> snd) (filter (idle_by_profile current_time) (connections p)),
       connections := filter (\<lambda>e. \<not> idle_by_profile current_time e) (connections p)\<rparr>"

text \<open>The same with the pool's own timeout in place of the profile's.\<close>

definition idle_by_pool :: "pool \<Rightarrow> real \<Rightarrow> string \<times> conn_info \<Rightarrow> bool" where
  "idle_by_pool p current_time entry = (current_time - last_used (snd entry) > timeout p)"

section \<open>Remote file reader\<close>

text \<open>
  What a call of the reader meets outside the program: the working directory of the
  process, whether \<open>get_connection\<close> hands out a client, what \<open>exec_command\<close> does with a
  command (an exception, or its standard output and standard error), and what the
  successive \<open>readline\<close> calls on the follow command return. An output stream is the
  text it delivers and, when reading or decoding breaks off after that text, the
  exception raised there.
\<close>

datatype stream = Stream string "exn option"

datatype read_event = Line string | ReadError string

text \<open>\<open>stream.read().decode()\<close>: the whole text, or the exception.\<close>

fun read_all :: "stream \<Rightarrow> exn + string" where
  "read_all (Stream text None) = Inr text"
| "read_all (Stream text (Some e)) = Inl e"

text \<open>The lines that \<open>for line in stream\<close> delivers, without their line ends.\<close>

definition stream_lines :: "string \<Rightarrow> string list" where
  "stream_lines text =
     (let pieces = split_on CHR 0x0A text
      in if last pieces = [] then butlast pieces else pieces)"

record remote_env =
  getcwd :: string
  connect :: bool
  exec_command :: "string \<Rightarrow> exn + (stream \<times> stream)"
  readline :: "read_event list"

text \<open>
  What a call does to the outside: \<open>Acquire\<close> is a call of \<open>get_connection\<close>, \<open>Exec\<close> a
  call of \<open>exec_command\<close> with its command text.
\<close>

datatype action = Acquire | Exec string

text \<open>
  A run of the generator \<open>tail_file\<close>: the \<open>data\<close> fields of the records it yields, what
  it did to the outside, and whether the generator has returned. A run that is not
  \<open>ended\<close> has used up the reads of its environment and waits in the follow loop.
\<close>

record run =
  records :: "string list"
  actions :: "action list"
  ended :: bool

definition cmd_check :: "string \<Rightarrow> string" where
  "cmd_check file_path = ''stat -c %s '' @ file_path @ '' 2>/dev/null || echo 0''"

definition cmd_history :: "int \<Rightarrow> string \<Rightarrow> string" where
  "cmd_history read_size file_path = ''tail -c '' @ str_int read_size @ '' '' @ file_path"

definition cmd_tail :: "string \<Rightarrow> string" where
  "cmd_tail file_path = ''tail -f '' @ file_path"

definition cmd_find :: "string \<Rightarrow> string \<Rightarrow> bool \<Rightarrow> string" where
  "cmd_find directory pat recursive =
     (if recursive then ''find '' @ [CHR 0x27] @ directory @ [CHR 0x27] @ '' -type f -name ''
                        @ [CHR 0x27] @ pat @ [CHR 0x27]
      else ''find '' @ [CHR 0x27] @ directory @ [CHR 0x27] @ '' -maxdepth 1 -type f -name ''
             @ [CHR 0x27] @ pat @ [CHR 0x27])"

definition cmd_truncate :: "string \<Rightarrow> string" where
  "cmd_truncate file_path = ''truncate -s 0 '' @ file_path"

text \<open>
  The body of both line loops: \<open>strip\<close> the line and, when something is left, yield it
  without its ANSI codes.
\<close>

definition emit_line :: "string \<Rightarrow> string list" where
  "emit_line line =
     (let decoded_line = strip line
      in if decoded_line \<noteq> [] then [strip_ansi_codes decoded_line] else [])"

text \<open>\<open>for line in stdout\<close> over the output of the history command.\<close>

definition history_records :: "string \<Rightarrow> string list" where
  "history_records out = concat (map emit_line (stream_lines out))"

text \<open>
  The loop \<open>while True\<close> of the follow phase over the reads of the environment: the
  records yielded, and whether the loop was left. An empty read sleeps and reads again;
  an exception is printed and leaves the loop.
\<close>

fun follow :: "read_event list \<Rightarrow> string list \<times> bool" where
  "follow [] = ([], False)"
| "follow (ReadError e # reads) = ([], True)"
| "follow (Line line # reads) =
     (let (rest, left) = follow reads
      in ((if line \<noteq> [] then emit_line line else []) @ rest, left))"

text \<open>The handler of the outer \<open>try\<close>: one record with the exception's text, then the end.\<close>

definition read_failed :: "string list \<Rightarrow> action list \<Rightarrow> exn \<Rightarrow> run" where
  "read_failed recs acts e =
     \<lparr>records = recs @ [''[ERROR] Failed to read remote file: '' @ str_exn e],
      actions = acts, ended = True\<rparr>"

text \<open>The follow phase of \<open>tail_file\<close>, after the history.\<close>

definition follow_phase :: "remote_env \<Rightarrow> string \<Rightarrow> string list \<Rightarrow> action list \<Rightarrow> run" where
  "follow_phase env file_path recs acts =
     (if \<not> validate_command (cmd_tail file_path) then
        \<lparr>records = recs @ [''[SECURITY] Command rejected: '' @ cmd_tail file_path],
         actions = acts, ended = True\<rparr>
      else
        (case exec_command env (cmd_tail file_path) of
           Inl e \<Rightarrow> read_failed recs (acts @ [Exec (cmd_tail file_path)]) e
         | Inr _ \<Rightarrow>
             (let (lines, left) = follow (readline env)
              in \<lparr>records = recs @ lines,
                  actions = acts @ [Exec (cmd_tail file_path)], ended = left\<rparr>)))"

text \<open>\<open>int(stdout.read().decode().strip() or 0)\<close>.\<close>

definition parse_size :: "string \<Rightarrow> exn + int" where
  "parse_size out = (if strip out = [] then Inr 0 else py_int (strip out))"

definition tail_file :: "remote_env \<Rightarrow> server_config \<Rightarrow> string \<Rightarrow> run" where
  "tail_file env server_config file_path =
     (let allowed = (case allowed_paths server_config of None \<Rightarrow> [] | Some a \<Rightarrow> a)
      in if \<not> validate_path (getcwd env) file_path allowed then
           \<lparr>records = [''[SECURITY] Access denied: '' @ file_path], actions = [], ended = True\<rparr>
         else if \<not> connect env then
           \<lparr>records = [''[ERROR] Failed to connect to remote server''],
            actions = [Acquire], ended = True\<rparr>
         else
           (let max_size = (case max_file_size server_config of
                              None \<Rightarrow> 104857600 | Some m \<Rightarrow> m);
                acts = [Acquire, Exec (cmd_check file_path)]
            in case exec_command env (cmd_check file_path) of
                 Inl e \<Rightarrow> read_failed [] acts e
               | Inr (stdout, _) \<Rightarrow>
                   (case read_all stdout of
                      Inl e \<Rightarrow> read_failed [] acts e
                    | Inr out \<Rightarrow>
                        (case parse_size out of
                           Inl e \<Rightarrow> read_failed [] acts e
                         | Inr file_size \<Rightarrow>
                             if \<not> check_file_size file_size max_size then
                               \<lparr>records = [''[ERROR] File too large: '' @ str_int file_size
                                            @ '' bytes (max: '' @ str_int max_size @ '')''],
                                actions = acts, ended = True\<rparr>
                             else if file_size > 0 then
                               (let read_size = min file_size 10240;
                                    acts' = acts @ [Exec (cmd_history read_size file_path)]
                                in case exec_command env (cmd_history read_size file_path) of
                                     Inl e \<Rightarrow> read_failed [] acts' e
                                   | Inr (Stream hist None, _) \<Rightarrow>
                                       follow_phase env file_path (history_records hist) acts'
                                   | Inr (Stream hist (Some e), _) \<Rightarrow>
                                       read_failed (history_records hist) acts' e)
                             else follow_phase env file_path [] acts))))"

text \<open>
  The loop \<open>for line in stdout\<close> of \<open>list_files\<close>, with its counter: the paths
  collected when the loop ends or breaks at 1000 files, \<open>None\<close> when reading the next
  line raises.
\<close>

fun collect_files :: "nat \<Rightarrow> string list \<Rightarrow> exn option \<Rightarrow> string list option" where
  "collect_files line_count [] None = Some []"
| "collect_files line_count [] (Some e) = None"
| "collect_files line_count (line # rest) broke =
     (if line_count \<ge> 1000 then Some []
      else if strip line \<noteq> [] then
        map_option (\<lambda>files. strip line # files) (collect_files (Suc line_count) rest broke)
      else collect_files line_count rest broke)"

text \<open>
  \<open>list_files\<close>: the paths of the descriptors returned (the \<open>name\<close> of each is the base
  name of its path) and what the call did to the outside.
\<close>

definition list_files ::
  "remote_env \<Rightarrow> server_config \<Rightarrow> string \<Rightarrow> string \<Rightarrow> bool \<Rightarrow> string list \<times> action list" where
  "list_files env server_config directory pat recursive =
     (let allowed = (case allowed_paths server_config of None \<Rightarrow> [] | Some a \<Rightarrow> a)
      in if \<not> validate_path (getcwd env) directory allowed then ([], [])
         else if \<not> connect env then ([], [Acquire])
         else
           (let cmd = cmd_find directory pat recursive
            in if \<not> validate_command cmd then ([], [Acquire])
               else
                 (case exec_command env cmd of
                    Inl e \<Rightarrow> ([], [Acquire, Exec cmd])
                  | Inr (Stream out broke, _) \<Rightarrow>
                      (case collect_files 0 (stream_lines out) broke of
                         None \<Rightarrow> ([], [Acquire, Exec cmd])
                       | Some files \<Rightarrow> (files, [Acquire, Exec cmd])))))"

text \<open>\<open>clear_file\<close>: its result and what the call did to the outside.\<close>

definition clear_file :: "remote_env \<Rightarrow> server_config \<Rightarrow> string \<Rightarrow> bool \<times> action list" where
  "clear_file env server_config file_path =
     (let allowed = (case allowed_paths server_config of None \<Rightarrow> [] | Some a \<Rightarrow> a)
      in if \<not> validate_path (getcwd env) file_path allowed then (False, [])
         else if \<not> connect env then (False, [Acquire])
         else
           (case exec_command env (cmd_truncate file_path) of
              Inl e \<Rightarrow> (False, [Acquire, Exec (cmd_truncate file_path)])
            | Inr (_, stderr) \<Rightarrow>
                (case read_all stderr of
                   Inl e \<Rightarrow> (False, [Acquire, Exec (cmd_truncate file_path)])
                 | Inr error_output \<Rightarrow>
                     (strip error_output = [], [Acquire, Exec (cmd_truncate file_path)]))))"

section \<open>Local tail session\<close>

text \<open>
  The following phase of \<open>LogManager.tail_file\<close> for a local file, from the point where
  the watch is started. The file is read through a one-byte encoding, so an offset
  counts characters. A wake-up of the loop is either the time-out of the wait, with the
  size the file has at that moment (\<open>None\<close> when it is gone: the loop asks
  \<open>os.path.exists\<close> only), or a change event, with the answer of \<open>os.path.getsize\<close> and
  the content that the following \<open>open\<close> reads; there \<open>None\<close> stands for an \<open>OSError\<close> of
  the call.
\<close>

datatype wake = Timeout "nat option" | Changed "nat option" "string option"

text \<open>
  The lines of a text file opened with universal newlines, without their line ends. The
  loop strips every line and skips the empty ones, so a line end of two characters read
  as two line ends changes nothing.
\<close>

fun lines_from :: "string \<Rightarrow> string \<Rightarrow> string list" where
  "lines_from w [] = (if w = [] then [] else [w])"
| "lines_from w (c # cs) =
     (if c = CHR 0x0A \<or> c = CHR 0x0D then w # lines_from [] cs
      else lines_from (w @ [c]) cs)"

text \<open>\<open>fp.seek(current_position)\<close>, then the loop \<open>async for line in fp\<close>.\<close>

definition read_from :: "nat \<Rightarrow> string \<Rightarrow> string list" where
  "read_from current_position content =
     concat (map emit_line (lines_from [] (drop current_position content)))"

text \<open>\<open>fp.tell()\<close> after the loop: the end of the file, or the seek offset beyond it.\<close>

definition tell :: "nat \<Rightarrow> string \<Rightarrow> nat" where
  "tell current_position content = max current_position (length content)"

definition yield_first ::
  "string list \<Rightarrow> string list \<times> nat \<times> bool \<Rightarrow> string list \<times> nat \<times> bool" where
  "yield_first recs r = (case r of (later, pos, fin) \<Rightarrow> (recs @ later, pos, fin))"

text \<open>
  The loop \<open>while True\<close> over the wake-ups: the records yielded, the cursor, and whether
  the generator has returned. With the wake-ups used up the session waits for the next.
\<close>

fun following :: "nat \<Rightarrow> wake list \<Rightarrow> string list \<times> nat \<times> bool" where
  "following current_position [] = ([], current_position, False)"
| "following current_position (Timeout size_now # wakes) =
     (if size_now = None then ([''[SYSTEM] File disappeared.''], current_position, True)
      else following current_position wakes)"
| "following current_position (Changed None opened # wakes) =
     following current_position wakes"
| "following current_position (Changed (Some new_size) None # wakes) =
     (if new_size < current_position then
        yield_first [''[SYSTEM] File truncated. Reloading...''] (following 0 wakes)
      else following current_position wakes)"
| "following current_position (Changed (Some new_size) (Some content) # wakes) =
     (if new_size < current_position then
        yield_first ([''[SYSTEM] File truncated. Reloading...''] @ read_from 0 content)
          (following (tell 0 content) wakes)
      else
        yield_first (read_from current_position content)
          (following (tell current_position content) wakes))"

section \<open>The specification's notions\<close>

text \<open>The first whitespace-delimited token of a command.\<close>

definition first_token :: "string \<Rightarrow> string" where
  "first_token command = takeWhile (\<lambda>c. \<not> isspace c) (dropWhile isspace command)"

text \<open>A path lies in a directory when it is the directory or continues it after a separator.\<close>

definition inside_dir :: "string \<Rightarrow> string \<Rightarrow> bool" where
  "inside_dir dir path = (path = dir \<or> startswith path (dir @ ''/''))"

section \<open>Example configurations\<close>

text \<open>
  A server profile that allows \<open>/var/log\<close> with the default size limit of 100 MB, an
  environment in which the connection succeeds and every command prints the text \<open>out\<close>,
  and one in which the connection succeeds and every command raises.
\<close>

definition profile_var_log :: server_config where
  "profile_var_log =
     \<lparr>host = ''10.0.0.5'', port = None, allowed_paths = Some [''/var/log''],
      max_file_size = Some 104857600, idle_timeout = 1000\<rparr>"

definition env_prints :: "string \<Rightarrow> read_event list \<Rightarrow> remote_env" where
  "env_prints out reads =
     \<lparr>getcwd = ''/srv/tail'', connect = True,
      exec_command = (\<lambda>cmd. Inr (Stream out None, Stream [] None)), readline = reads\<rparr>"

definition env_raises :: "string \<Rightarrow> remote_env" where
  "env_raises msg =
     \<lparr>getcwd = ''/srv/tail'', connect = True,
      exec_command = (\<lambda>cmd. Inl (SSHError msg)), readline = []\<rparr>"

text \<open>
  A pool with the timeout of 300 seconds that \<open>LogManager\<close> gives it and two entries: one
  last used at time 0, one at time 400.
\<close>

definition pool_example :: pool where
  "pool_example =
     \<lparr>max_connections = 10, timeout = 300,
      connections =
        [(''10.0.0.5:22'', \<lparr>client = 1, last_used = 0, config = profile_var_log\<rparr>),
         (''10.0.0.6:22'', \<lparr>client = 2, last_used = 400, config = profile_var_log\<rparr>)],
      closed = []\<rparr>"

section \<open>Properties of the command validator\<close>

lemma split_from_word:
  "w \<noteq> [] \<Longrightarrow> split_from w s =
     (w @ takeWhile (\<lambda>c. \<not> isspace c) s) # split_from [] (dropWhile (\<lambda>c. \<not> isspace c) s)"
  by (induction s arbitrary: w) auto

lemma split_ws_first:
  "s \<noteq> [] \<Longrightarrow> \<not> isspace (hd s) \<Longrightarrow>
     split_ws s = takeWhile (\<lambda>c. \<not> isspace c) s # split_from [] (dropWhile (\<lambda>c. \<not> isspace c) s)"
  by (cases s) (simp_all add: split_ws_def split_from_word)

lemma rstrip_decomp: "\<exists>ws. t = rstrip t @ ws \<and> (\<forall>c\<in>set ws. isspace c)"
proof -
  have "rev t = takeWhile isspace (rev t) @ dropWhile isspace (rev t)" by simp
  then have "t = rev (dropWhile isspace (rev t)) @ rev (takeWhile isspace (rev t))"
    by (metis rev_append rev_rev_ident)
  moreover have "\<forall>c\<in>set (rev (takeWhile isspace (rev t))). isspace c"
    by (auto dest: set_takeWhileD)
  ultimately show ?thesis unfolding rstrip_def by blast
qed

lemma lstrip_hd: "lstrip s \<noteq> [] \<Longrightarrow> \<not> isspace (hd (lstrip s))"
  unfolding lstrip_def by (rule hd_dropWhile)

lemma takeWhile_rstrip:
  "takeWhile (\<lambda>c. \<not> isspace c) (rstrip t) = takeWhile (\<lambda>c. \<not> isspace c) t"
proof -
  obtain ws where t: "t = rstrip t @ ws" and ws: "\<forall>c\<in>set ws. isspace c"
    using rstrip_decomp by blast
  have tw: "takeWhile (\<lambda>c. \<not> isspace c) ws = []"
    using ws by (cases ws) auto
  have "takeWhile (\<lambda>c. \<not> isspace c) (rstrip t @ ws) = takeWhile (\<lambda>c. \<not> isspace c) (rstrip t)"
  proof (cases "\<forall>x\<in>set (rstrip t). \<not> isspace x")
    case True
    then have e: "takeWhile (\<lambda>c. \<not> isspace c) (rstrip t) = rstrip t"
      by (metis takeWhile_eq_all_conv)
    show ?thesis using True by (simp add: takeWhile_append tw e)
  next
    case False
    then show ?thesis by (auto simp: takeWhile_append)
  qed
  with t show ?thesis by simp
qed

lemma strip_empty_iff: "strip s = [] \<longleftrightarrow> (\<forall>c\<in>set s. isspace c)"
proof
  assume e: "strip s = []"
  obtain ws where t: "lstrip s = rstrip (lstrip s) @ ws" and ws: "\<forall>c\<in>set ws. isspace c"
    using rstrip_decomp by blast
  from e t have "lstrip s = ws" by (simp add: strip_def)
  with ws have "\<forall>c\<in>set (lstrip s). isspace c" by simp
  then have "lstrip s = []" using lstrip_hd [of s] by (cases "lstrip s") auto
  then show "\<forall>c\<in>set s. isspace c" by (simp add: lstrip_def)
next
  assume "\<forall>c\<in>set s. isspace c"
  then have "lstrip s = []" by (simp add: lstrip_def)
  then show "strip s = []" by (simp add: strip_def rstrip_def)
qed

lemma strip_hd: "strip s \<noteq> [] \<Longrightarrow> hd (strip s) = hd (lstrip s)"
proof -
  assume n: "strip s \<noteq> []"
  obtain ws where t: "lstrip s = rstrip (lstrip s) @ ws"
    using rstrip_decomp by blast
  from n have "rstrip (lstrip s) \<noteq> []" by (simp add: strip_def)
  then have "hd (rstrip (lstrip s) @ ws) = hd (rstrip (lstrip s))" by simp
  with t show ?thesis by (simp add: strip_def)
qed

lemma split_strip_nonempty: "strip s \<noteq> [] \<Longrightarrow> split_ws (strip s) \<noteq> []"
proof -
  assume n: "strip s \<noteq> []"
  then have "lstrip s \<noteq> []" by (auto simp: strip_def rstrip_def)
  then have "\<not> isspace (hd (strip s))" using n strip_hd lstrip_hd by simp
  with n show ?thesis by (simp add: split_ws_first)
qed

lemma cmd_name_first_token: "cmd_name command = first_token command"
proof (cases "strip command = []")
  case True
  then have "\<forall>c\<in>set command. isspace c" by (simp add: strip_empty_iff)
  then have d: "dropWhile isspace command = []" by simp
  show ?thesis using True unfolding cmd_name_def first_token_def d by simp
next
  case False
  then have l: "lstrip command \<noteq> []" by (auto simp: strip_def rstrip_def)
  have h: "\<not> isspace (hd (strip command))" using False l strip_hd lstrip_hd by simp
  have "cmd_name command = takeWhile (\<lambda>c. \<not> isspace c) (strip command)"
    using False h by (simp add: cmd_name_def split_ws_first)
  also have "\<dots> = takeWhile (\<lambda>c. \<not> isspace c) (lstrip command)"
    by (simp add: strip_def takeWhile_rstrip)
  finally show ?thesis by (simp add: first_token_def lstrip_def)
qed

text \<open>
  Claim C8. \<open>validate_command\<close> returns true if and only if the first
  whitespace-delimited token of the command is one of \<open>tail\<close>, \<open>cat\<close>, \<open>head\<close>, \<open>ls\<close>,
  \<open>find\<close> and the command text contains none of the characters \<open>; | & $ ` > <\<close>, no
  newline and no carriage return. In particular it returns false for a command that is
  empty or consists of whitespace only.
\<close>

theorem validate_command_iff:
  "(validate_command command \<longleftrightarrow>
      first_token command \<in> {''tail'', ''cat'', ''head'', ''ls'', ''find''} \<and>
      set command \<inter>
        {CHR '';'', CHR ''|'', CHR ''&'', CHR ''$'', CHR 0x60, CHR ''>'', CHR ''<'',
         CHR 0x0A, CHR 0x0D} = {}) \<and>
   ((\<forall>c\<in>set command. isspace c) \<longrightarrow> \<not> validate_command command)"
proof -
  have "first_token command = []" if "\<forall>c\<in>set command. isspace c"
  proof -
    from that have d: "dropWhile isspace command = []" by simp
    show ?thesis by (simp only: first_token_def d takeWhile.simps)
  qed
  then show ?thesis
    by (auto simp: validate_command_def cmd_name_first_token ALLOWED_COMMANDS_def
          dangerous_chars_def)
qed

theorem validate_command_iff_witness:
  "validate_command ''tail -f /var/log/app.log'' \<and>
   \<not> validate_command ''tail -f /var/log/app.log; id'' \<and>
   \<not> validate_command ''rm /var/log/app.log'' \<and>
   list_all isspace ''  '' \<and> \<not> validate_command ''  '' \<and>
   \<not> validate_command []"
  using validate_command_iff [of "''tail -f /var/log/app.log''"]
    validate_command_iff [of "''tail -f /var/log/app.log; id''"]
    validate_command_iff [of "''rm /var/log/app.log''"]
    validate_command_iff [of "''  ''"]
    validate_command_iff [of "[]"]
  by (simp add: first_token_def isspace_def list_all_iff)

section \<open>Properties of the path validator\<close>

lemma lower_char_dot: "lower_char c = CHR ''.'' \<longleftrightarrow> c = CHR ''.''"
  by (auto simp: lower_char_def split: option.splits if_splits)

lemma startswith_lower_dotdot: "startswith s ''..'' \<Longrightarrow> startswith (lower s) ''..''"
  by (cases s; cases "tl s") (auto simp: startswith_def lower_def lower_char_dot)

lemma contains_lower_dotdot: "contains s ''..'' \<Longrightarrow> contains (lower s) ''..''"
proof (induction s)
  case Nil
  then show ?case by simp
next
  case (Cons c cs)
  then show ?case
    using startswith_lower_dotdot [of "c # cs"] by (auto simp: lower_def)
qed

lemma dangerous_dotdot:
  "contains s ''..'' \<Longrightarrow> list_ex (\<lambda>pat. re_search pat s) DANGEROUS_PATTERNS"
  by (simp add: DANGEROUS_PATTERNS_def contains_lower_dotdot)

text \<open>
  Claim C6. \<open>validate_path\<close> returns false for every path when the allow-list is empty,
  and returns false for every path whose canonical form still contains \<open>..\<close>, whatever
  the allow-list holds.
\<close>

theorem validate_path_fail_closed:
  "validate_path cwd path [] = False \<and>
   (contains (abspath cwd (normpath path)) ''..'' \<longrightarrow> validate_path cwd path allowed = False)"
  by (simp add: validate_path_def Let_def dangerous_dotdot)

lemma abspath_var_log: "abspath cwd (normpath ''/var/log'') = ''/var/log''"
  by (simp add: abspath_def normpath_def initial_slashes_def startswith_def norm_step_def)

text \<open>
  Claim C3. \<open>validate_path\<close> decides membership in the allow-list by a plain string-prefix
  test on the canonical path. With the allow-list \<open>["/var/log"]\<close>, every canonical path
  that continues the text \<open>/var/log\<close> with a character other than the separator, and so
  lies outside the directory, is accepted unless a denylist pattern matches it: the
  sibling \<open>/var/logs/app.log\<close> is accepted.
\<close>

theorem validate_path_accepts_sibling:
  assumes "path = ''/var/log'' @ c # rest" and "c \<noteq> CHR ''/''"
    and "normpath path = path"
    and "\<not> list_ex (\<lambda>pat. re_search pat path) DANGEROUS_PATTERNS"
  shows "validate_path cwd path [''/var/log''] \<and> \<not> inside_dir ''/var/log'' path"
proof -
  have abs: "startswith path ''/''" using assms(1) by (simp add: startswith_def)
  have res: "abspath cwd (normpath path) = path"
    using abs assms(3) by (simp add: abspath_def)
  have pre: "startswith path ''/var/log''" using assms(1) by (simp add: startswith_def)
  have "validate_path cwd path [''/var/log'']"
    using assms(4) pre by (simp add: validate_path_def Let_def res abspath_var_log)
  moreover have "\<not> inside_dir ''/var/log'' path"
    using assms(1,2) by (simp add: inside_dir_def startswith_def)
  ultimately show ?thesis by simp
qed

lemma normpath_ex: "normpath ''/var/logs/app.log'' = ''/var/logs/app.log''"
  by (simp add: normpath_def initial_slashes_def startswith_def norm_step_def)

lemma not_dangerous_ex: "\<not> list_ex (\<lambda>pat. re_search pat ''/var/logs/app.log'') DANGEROUS_PATTERNS"
  by (simp add: DANGEROUS_PATTERNS_def lower_def lower_char_def startswith_def endswith_def)

theorem validate_path_accepts_sibling_witness:
  "validate_path ''/srv/tail'' ''/var/logs/app.log'' [''/var/log''] \<and>
   \<not> inside_dir ''/var/log'' ''/var/logs/app.log''"
  using validate_path_accepts_sibling [of "''/var/logs/app.log''" "CHR ''s''" "''/app.log''" "''/srv/tail''"]
    normpath_ex not_dangerous_ex by simp

theorem validate_path_fail_closed_witness:
  "validate_path ''/srv/tail'' ''/var/log/a..b'' [] = False \<and>
   contains (abspath ''/srv/tail'' (normpath ''/var/log/a..b'')) ''..'' \<and>
   validate_path ''/srv/tail'' ''/var/log/a..b'' [''/var/log''] = False"
proof -
  have c: "contains (abspath ''/srv/tail'' (normpath ''/var/log/a..b'')) ''..''"
    by (simp add: abspath_def normpath_def initial_slashes_def startswith_def norm_step_def)
  show ?thesis
    using validate_path_fail_closed [of "''/srv/tail''" "''/var/log/a..b''" "[''/var/log'']"] c
    by simp
qed

section \<open>Properties of the ANSI stripping\<close>

lemma m_classes:
  "\<not> is_digit_semi CHR ''m''" "\<not> is_param CHR ''m''" "\<not> is_inter CHR ''m''" "is_final CHR ''m''"
  by (simp_all add: is_digit_semi_def is_digit_def is_param_def is_inter_def is_final_def in_range_def)

lemma match_bare_sgr:
  assumes "ds \<noteq> []" and "list_all is_digit_semi ds"
  shows "match_bare (CHR ''['' # ds @ CHR ''m'' # rest) = Some (2 + length ds)"
proof -
  have all: "\<And>x. x \<in> set ds \<Longrightarrow> is_digit_semi x" using assms(2) by (simp add: list_all_iff)
  have t: "takeWhile is_digit_semi (ds @ CHR ''m'' # rest) = ds"
    using all by (simp add: m_classes)
  have d: "dropWhile is_digit_semi (ds @ CHR ''m'' # rest) = CHR ''m'' # rest"
    using all by (simp add: m_classes)
  show ?thesis using assms(1) by (simp add: match_bare_def t d)
qed

lemma dropWhile_tail: "\<not> P b \<Longrightarrow> dropWhile P (xs @ b # t) = dropWhile P xs @ b # t"
  by (induction xs) auto

lemma length_takeWhile_dropWhile:
  "length (takeWhile P xs) + length (dropWhile P xs) = length xs"
  by (metis length_append takeWhile_dropWhile_id)

lemma boundary_classes:
  "\<not> is_param CHR 0x1B" "\<not> is_inter CHR 0x1B" "\<not> is_final CHR 0x1B"
  "\<not> is_digit_semi CHR 0x1B"
  "\<not> is_param CHR ''[''" "\<not> is_inter CHR ''[''" "\<not> is_digit_semi CHR ''[''"
  by (simp_all add: is_param_def is_inter_def is_final_def is_digit_semi_def is_digit_def
        in_range_def)

lemma match_csi_append:
  assumes "b = CHR 0x1B \<or> (b = CHR ''['' \<and> \<not> csi_begun (c # cs))"
  shows "match_csi ((c # cs) @ b # t) = match_csi (c # cs)"
proof (cases cs)
  case Nil
  with assms show ?thesis
    by (auto simp: match_csi_def csi_begun_def)
next
  case (Cons b' params)
  show ?thesis
  proof (cases "c = CHR 0x1B \<and> b' = CHR ''[''")
    case False
    with Cons show ?thesis by (auto simp: match_csi_def)
  next
    case True
    define R where "R = dropWhile is_inter (dropWhile is_param params)"
    define k where "k = 3 + length (takeWhile is_param params)
                        + length (takeWhile is_inter (dropWhile is_param params))"
    have p: "\<not> is_param b" and i: "\<not> is_inter b"
      using assms boundary_classes by auto
    have tp: "takeWhile is_param (params @ b # t) = takeWhile is_param params"
      using p by (rule takeWhile_tail)
    have dp: "dropWhile is_param (params @ b # t) = dropWhile is_param params @ b # t"
      using p by (rule dropWhile_tail)
    have ti: "takeWhile is_inter (dropWhile is_param params @ b # t) =
              takeWhile is_inter (dropWhile is_param params)"
      using i by (rule takeWhile_tail)
    have di: "dropWhile is_inter (dropWhile is_param params @ b # t) = R @ b # t"
      unfolding R_def using i by (rule dropWhile_tail)
    have lhs: "match_csi ((c # cs) @ b # t) =
                 (case R @ b # t of [] \<Rightarrow> None
                  | f # _ \<Rightarrow> if is_final f then Some k else None)"
      using True Cons
      by (simp add: match_csi_def Let_def tp dp ti di k_def cong: list.case_cong if_cong)
    have rhs: "match_csi (c # cs) =
                 (case R of [] \<Rightarrow> None | f # _ \<Rightarrow> if is_final f then Some k else None)"
      using True Cons
      by (simp add: match_csi_def Let_def R_def k_def cong: list.case_cong if_cong)
    show ?thesis
    proof (cases R)
      case Nil
      then have "csi_begun (c # cs)"
        using True Cons by (simp add: csi_begun_def R_def)
      with assms have "b = CHR 0x1B" by auto
      then show ?thesis unfolding lhs rhs Nil by (simp add: boundary_classes)
    next
      case (Cons f later)
      show ?thesis unfolding lhs rhs Cons by simp
    qed
  qed
qed

lemma match_bare_append:
  assumes "b = CHR 0x1B \<or> b = CHR ''[''"
  shows "match_bare ((c # cs) @ b # t) = match_bare (c # cs)"
proof -
  define D where "D = dropWhile is_digit_semi cs"
  define k where "k = 2 + length (takeWhile is_digit_semi cs)"
  have d: "\<not> is_digit_semi b" using assms boundary_classes by auto
  have m: "b \<noteq> CHR ''m''" using assms by auto
  have tw: "takeWhile is_digit_semi (cs @ b # t) = takeWhile is_digit_semi cs"
    using d by (rule takeWhile_tail)
  have dw: "dropWhile is_digit_semi (cs @ b # t) = D @ b # t"
    unfolding D_def using d by (rule dropWhile_tail)
  have lhs: "match_bare ((c # cs) @ b # t) =
               (if c = CHR ''['' \<and> takeWhile is_digit_semi cs \<noteq> [] then
                  (case D @ b # t of [] \<Rightarrow> None
                   | x # _ \<Rightarrow> if x = CHR ''m'' then Some k else None)
                else None)"
    by (simp add: match_bare_def tw dw k_def cong: list.case_cong if_cong)
  have rhs: "match_bare (c # cs) =
               (if c = CHR ''['' \<and> takeWhile is_digit_semi cs \<noteq> [] then
                  (case D of [] \<Rightarrow> None
                   | x # _ \<Rightarrow> if x = CHR ''m'' then Some k else None)
                else None)"
    by (simp add: match_bare_def D_def k_def cong: list.case_cong if_cong)
  show ?thesis
    unfolding lhs rhs using m by (cases D) simp_all
qed

lemma match_ansi_append:
  assumes "b = CHR 0x1B \<or> (b = CHR ''['' \<and> \<not> csi_begun (c # cs))"
  shows "match_ansi ((c # cs) @ b # t) = match_ansi (c # cs)"
proof -
  have "b = CHR 0x1B \<or> b = CHR ''[''" using assms by auto
  then have mb: "match_bare ((c # cs) @ b # t) = match_bare (c # cs)"
    by (rule match_bare_append)
  show ?thesis
    by (simp only: match_ansi_def match_csi_append [OF assms] mb)
qed

lemma match_ansi_length: "match_ansi s = Some n \<Longrightarrow> n \<le> length s"
proof -
  assume a: "match_ansi s = Some n"
  have csi: "match_csi s = Some k \<Longrightarrow> k \<le> length s" for k
    using length_takeWhile_dropWhile [of is_param "tl (tl s)"]
      length_takeWhile_dropWhile [of is_inter "dropWhile is_param (tl (tl s))"]
    by (auto simp: match_csi_def Let_def split: list.splits if_splits)
  have bare: "match_bare s = Some k \<Longrightarrow> k \<le> length s" for k
    using length_takeWhile_dropWhile [of is_digit_semi "tl s"]
    by (auto simp: match_bare_def split: list.splits if_splits)
  from a csi bare show ?thesis
    by (auto simp: match_ansi_def split: option.splits)
qed

lemma open_csi_drop: "open_csi (drop n s) \<Longrightarrow> open_csi s"
proof (induction s arbitrary: n)
  case Nil
  then show ?case by simp
next
  case (Cons c cs)
  then show ?case by (cases n) auto
qed

lemma strip_ansi_codes_append:
  assumes "b = CHR 0x1B \<or> (b = CHR ''['' \<and> \<not> open_csi pre)"
  shows "strip_ansi_codes (pre @ b # t) = strip_ansi_codes pre @ strip_ansi_codes (b # t)"
  using assms
proof (induction pre rule: strip_ansi_codes.induct)
  case 1
  then show ?case by simp
next
  case (2 c cs)
  have here: "b = CHR 0x1B \<or> (b = CHR ''['' \<and> \<not> csi_begun (c # cs))"
    using "2.prems" by auto
  have m: "match_ansi (c # (cs @ b # t)) = match_ansi (c # cs)"
    using match_ansi_append [OF here, of t] by simp
  show ?case
  proof (cases "match_ansi (c # cs)")
    case None
    have "b = CHR 0x1B \<or> (b = CHR ''['' \<and> \<not> open_csi cs)" using "2.prems" by auto
    from "2.IH"(1) [OF None this] None m show ?thesis by simp
  next
    case (Some n)
    have le: "n \<le> length (c # cs)" using Some by (rule match_ansi_length)
    have "b = CHR 0x1B \<or> (b = CHR ''['' \<and> \<not> open_csi (drop n (c # cs)))"
      using "2.prems" open_csi_drop [of n "c # cs"] by auto
    from "2.IH"(2) [OF Some this]
    have "strip_ansi_codes (drop n (c # cs) @ b # t) =
          strip_ansi_codes (drop n (c # cs)) @ strip_ansi_codes (b # t)" .
    moreover have "drop n (c # (cs @ b # t)) = drop n (c # cs) @ b # t"
      using le by (metis append_Cons drop_append diff_is_0_eq drop0)
    ultimately show ?thesis using Some m by simp
  qed
qed

lemma open_csi_no_esc: "CHR 0x1B \<notin> set s \<Longrightarrow> \<not> open_csi s"
  by (induction s) (auto simp: csi_begun_def)

lemma takeWhile_none: "(\<forall>x\<in>set xs. \<not> P x) \<Longrightarrow> \<not> P y \<Longrightarrow> takeWhile P (xs @ y # ys) = []"
  by (cases xs) auto

lemma class_disjoint:
  "is_inter c \<Longrightarrow> \<not> is_param c" "is_final c \<Longrightarrow> \<not> is_param c" "is_final c \<Longrightarrow> \<not> is_inter c"
  by (auto simp: is_param_def is_inter_def is_final_def in_range_def)

lemma match_csi_sequence:
  assumes "list_all is_param ps" and "list_all is_inter ins" and "is_final f"
  shows "match_csi (CHR 0x1B # CHR ''['' # ps @ ins @ f # rest) = Some (3 + length ps + length ins)"
proof -
  have ps: "\<And>x. x \<in> set ps \<Longrightarrow> is_param x" using assms(1) by (simp add: list_all_iff)
  have ins: "\<And>x. x \<in> set ins \<Longrightarrow> is_inter x" using assms(2) by (simp add: list_all_iff)
  have n: "takeWhile is_param (ins @ f # rest) = []"
    using ins assms(3) by (intro takeWhile_none) (auto simp: class_disjoint)
  then have dn: "dropWhile is_param (ins @ f # rest) = ins @ f # rest"
    by (metis append_Nil takeWhile_dropWhile_id)
  have tp: "takeWhile is_param (ps @ ins @ f # rest) = ps"
    using ps n by (simp add: takeWhile_append2)
  have dp: "dropWhile is_param (ps @ ins @ f # rest) = ins @ f # rest"
    using ps dn by (simp add: dropWhile_append2)
  have ti: "takeWhile is_inter (ins @ f # rest) = ins"
    using ins assms(3) by (simp add: takeWhile_append2 class_disjoint)
  have di: "dropWhile is_inter (ins @ f # rest) = f # rest"
    using ins assms(3) by (simp add: dropWhile_append2 class_disjoint)
  show ?thesis using assms(3) by (simp add: match_csi_def tp dp ti di)
qed

text \<open>
  Claim C10. The ANSI stripping applied to every emitted line removes not only the
  escape sequences that start with ESC (any parameter and intermediate characters, any
  final character) but also every bare text \<open>[\<close>, digits or semicolons, \<open>m\<close> with
  no ESC in front, that is, wherever the text before it does not end in the beginning
  of an escape sequence; a text with no ESC at all never does. Literal log content such
  as \<open>[31m\<close> or \<open>[2;10m\<close> is deleted from the line that the consumer receives, and
  what stands before and after it is stripped as if it stood alone.
\<close>

theorem strip_ansi_codes_bare:
  "(\<not> open_csi pre \<and> ds \<noteq> [] \<and> list_all is_digit_semi ds \<longrightarrow>
      strip_ansi_codes (pre @ ''['' @ ds @ ''m'' @ rest) =
        strip_ansi_codes pre @ strip_ansi_codes rest) \<and>
   (list_all is_param ps \<and> list_all is_inter ins \<and> is_final f \<longrightarrow>
      strip_ansi_codes (pre @ [CHR 0x1B] @ ''['' @ ps @ ins @ [f] @ rest) =
        strip_ansi_codes pre @ strip_ansi_codes rest) \<and>
   (CHR 0x1B \<notin> set pre \<longrightarrow> \<not> open_csi pre)"
proof (intro conjI impI)
  assume a: "\<not> open_csi pre \<and> ds \<noteq> [] \<and> list_all is_digit_semi ds"
  have "match_csi (CHR ''['' # ds @ CHR ''m'' # rest) = None"
    by (simp add: match_csi_def split: list.splits)
  then have "strip_ansi_codes (CHR ''['' # ds @ CHR ''m'' # rest) = strip_ansi_codes rest"
    using a match_bare_sgr [of ds rest] by (simp add: match_ansi_def)
  then show "strip_ansi_codes (pre @ ''['' @ ds @ ''m'' @ rest) =
             strip_ansi_codes pre @ strip_ansi_codes rest"
    using a strip_ansi_codes_append [of "CHR ''[''" pre "ds @ CHR ''m'' # rest"] by simp
next
  assume a: "list_all is_param ps \<and> list_all is_inter ins \<and> is_final f"
  have "strip_ansi_codes (CHR 0x1B # CHR ''['' # ps @ ins @ f # rest) = strip_ansi_codes rest"
    using a match_csi_sequence [of ps ins f rest]
    by (simp add: match_ansi_def eval_nat_numeral)
  then show "strip_ansi_codes (pre @ [CHR 0x1B] @ ''['' @ ps @ ins @ [f] @ rest) =
             strip_ansi_codes pre @ strip_ansi_codes rest"
    using strip_ansi_codes_append [of "CHR 0x1B" pre "CHR ''['' # ps @ ins @ f # rest"] by simp
next
  assume "CHR 0x1B \<notin> set pre"
  then show "\<not> open_csi pre" by (rule open_csi_no_esc)
qed

lemma strip_examples:
  "strip_ansi_codes ''[INFO] disk '' = ''[INFO] disk ''"
  "strip_ansi_codes ''[INFO] '' = ''[INFO] ''"
  "strip_ansi_codes ''full'' = ''full''"
  "strip_ansi_codes ''ready'' = ''ready''"
  by code_simp+

lemma class_examples:
  "list_all is_digit_semi ''31''" "list_all is_digit_semi ''2;10''"
  "list_all is_param ''?25''" "is_final CHR ''h''" "\<not> open_csi ''[INFO] disk ''"
  by code_simp+

theorem strip_ansi_codes_bare_witness:
  "strip_ansi_codes ''[INFO] disk [31mfull'' = ''[INFO] disk full'' \<and>
   strip_ansi_codes ''[2;10m'' = [] \<and>
   strip_ansi_codes (''[INFO] '' @ [CHR 0x1B] @ ''[?25h'' @ ''ready'') = ''[INFO] ready'' \<and>
   \<not> open_csi ''[INFO] disk ''"
  using strip_ansi_codes_bare [of "''[INFO] disk ''" "''31''" "''full''" "[]" "[]" "CHR ''h''"]
    strip_ansi_codes_bare [of "[]" "''2;10''" "[]" "[]" "[]" "CHR ''h''"]
    strip_ansi_codes_bare [of "''[INFO] ''" "''31''" "''ready''" "''?25''" "[]" "CHR ''h''"]
    strip_examples class_examples
  by simp

section \<open>Properties of the remote tail: denial and size limit\<close>

lemma vp_app: "validate_path ''/srv/tail'' ''/var/log/app.log'' [''/var/log'']"
  by code_simp

lemma vp_passwd: "\<not> validate_path ''/srv/tail'' ''/etc/passwd'' [''/var/log'']"
  by code_simp

lemma parse_big: "parse_size (''524288000'' @ [CHR 0x0A]) = Inr 524288000"
  by (simp add: parse_size_def py_int_def strip_def lstrip_def rstrip_def isspace_def
        startswith_def is_digit_def in_range_def digits_value_def)

lemma str_big: "str_int 524288000 = ''524288000''" "str_int 104857600 = ''104857600''"
  by (simp_all add: str_int_def str_nat.simps)

text \<open>
  Claim C4. For every remote tail request whose target path fails \<open>validate_path\<close>
  against the server's allowed prefixes, the stream consists of exactly one terminal
  \<open>[SECURITY]\<close> record and then ends; no remote command is issued and no connection is
  acquired.
\<close>

theorem tail_file_path_denied:
  assumes "\<not> validate_path (getcwd env) file_path
             (case allowed_paths cfg of None \<Rightarrow> [] | Some a \<Rightarrow> a)"
  shows "tail_file env cfg file_path =
           \<lparr>records = [''[SECURITY] Access denied: '' @ file_path], actions = [], ended = True\<rparr>"
  using assms by (simp add: tail_file_def)

theorem tail_file_path_denied_witness:
  "tail_file (env_prints ''0'' []) profile_var_log ''/etc/passwd'' =
     \<lparr>records = [''[SECURITY] Access denied: /etc/passwd''], actions = [], ended = True\<rparr>"
  using tail_file_path_denied [of "env_prints ''0'' []" "''/etc/passwd''" profile_var_log] vp_passwd
  by (simp add: env_prints_def profile_var_log_def)

text \<open>
  A size query that raises does not fall back to size 0: the stream ends with the
  generic \<open>[ERROR]\<close> record of the outer handler.
\<close>

theorem tail_file_size_query_raises:
  "tail_file (env_raises ''Channel closed'') profile_var_log ''/var/log/app.log'' =
     \<lparr>records = [''[ERROR] Failed to read remote file: Channel closed''],
      actions = [Acquire, Exec ''stat -c %s /var/log/app.log 2>/dev/null || echo 0''],
      ended = True\<rparr>"
  by code_simp

text \<open>
  Claim C5, as the code has it. In a remote tail whose path is allowed and whose
  connection is acquired, a size query that prints nothing is read as size 0: the
  stream goes on to the follow phase with no backlog read, as for an empty file. A size
  query that raises, whose output cannot be read, or that prints a text which is no
  integer ends the stream with one generic \<open>[ERROR]\<close> record and no tail command. When
  the reported size fails \<open>check_file_size\<close> against the profile's maximum, the stream is
  one terminal \<open>[ERROR]\<close> record that cites the size and the maximum, and it ends with
  the size query as its only command: no tail command is issued.
\<close>

theorem tail_file_size_query:
  assumes "validate_path (getcwd env) file_path
             (case allowed_paths cfg of None \<Rightarrow> [] | Some a \<Rightarrow> a)"
    and "connect env"
    and "max_size = (case max_file_size cfg of None \<Rightarrow> 104857600 | Some m \<Rightarrow> m)"
  shows
    "(exec_command env (cmd_check file_path) = Inr (Stream out None, errs) \<and>
      strip out = [] \<and> 0 \<le> max_size \<longrightarrow>
      tail_file env cfg file_path =
        follow_phase env file_path [] [Acquire, Exec (cmd_check file_path)]) \<and>
     (exec_command env (cmd_check file_path) = Inl e \<or>
      exec_command env (cmd_check file_path) = Inr (Stream out (Some e), errs) \<or>
      exec_command env (cmd_check file_path) = Inr (Stream out None, errs) \<and>
        parse_size out = Inl e \<longrightarrow>
      tail_file env cfg file_path =
        \<lparr>records = [''[ERROR] Failed to read remote file: '' @ str_exn e],
         actions = [Acquire, Exec (cmd_check file_path)], ended = True\<rparr>) \<and>
     (exec_command env (cmd_check file_path) = Inr (Stream out None, errs) \<and>
      parse_size out = Inr sz \<and> \<not> check_file_size sz max_size \<longrightarrow>
      tail_file env cfg file_path =
        \<lparr>records = [''[ERROR] File too large: '' @ str_int sz @ '' bytes (max: ''
                     @ str_int max_size @ '')''],
         actions = [Acquire, Exec (cmd_check file_path)], ended = True\<rparr>)"
  using assms
  by (auto simp: tail_file_def Let_def parse_size_def read_failed_def check_file_size_def)

lemma parse_abc: "parse_size ''abc'' = Inl (ValueError ''abc'')"
  by (simp add: parse_size_def py_int_def strip_def lstrip_def rstrip_def isspace_def
        startswith_def is_digit_def in_range_def)

lemma str_exn_abc:
  "str_exn (ValueError ''abc'') = ''invalid literal for int() with base 10: '' @ [CHR 0x27] @ ''abc'' @ [CHR 0x27]"
  by (simp add: repr_def repr_char_def Let_def)

lemma follow_phase_waiting:
  "follow_phase (env_prints [] []) ''/var/log/app.log'' []
      [Acquire, Exec ''stat -c %s /var/log/app.log 2>/dev/null || echo 0''] =
     \<lparr>records = [],
      actions = [Acquire, Exec ''stat -c %s /var/log/app.log 2>/dev/null || echo 0'',
                 Exec ''tail -f /var/log/app.log''],
      ended = False\<rparr>"
  by code_simp

theorem tail_file_size_query_witness:
  "tail_file (env_prints [] []) profile_var_log ''/var/log/app.log'' =
     \<lparr>records = [],
      actions = [Acquire, Exec ''stat -c %s /var/log/app.log 2>/dev/null || echo 0'',
                 Exec ''tail -f /var/log/app.log''],
      ended = False\<rparr> \<and>
   tail_file (env_prints ''abc'' []) profile_var_log ''/var/log/app.log'' =
     \<lparr>records = [''[ERROR] Failed to read remote file: invalid literal for int() with base 10: ''
                  @ [CHR 0x27] @ ''abc'' @ [CHR 0x27]],
      actions = [Acquire, Exec ''stat -c %s /var/log/app.log 2>/dev/null || echo 0''],
      ended = True\<rparr> \<and>
   tail_file (env_prints (''524288000'' @ [CHR 0x0A]) []) profile_var_log ''/var/log/app.log'' =
     \<lparr>records = [''[ERROR] File too large: 524288000 bytes (max: 104857600)''],
      actions = [Acquire, Exec ''stat -c %s /var/log/app.log 2>/dev/null || echo 0''],
      ended = True\<rparr>"
proof -
  have v: "validate_path (getcwd (env_prints out [])) ''/var/log/app.log''
             (case allowed_paths profile_var_log of None \<Rightarrow> [] | Some a \<Rightarrow> a)" for out
    using vp_app by (simp add: env_prints_def profile_var_log_def)
  have c: "connect (env_prints out [])" for out
    by (simp add: env_prints_def)
  have m: "(104857600::int) =
             (case max_file_size profile_var_log of None \<Rightarrow> 104857600 | Some m \<Rightarrow> m)"
    by (simp add: profile_var_log_def)
  have x: "exec_command (env_prints out []) (cmd_check ''/var/log/app.log'') =
             Inr (Stream out None, Stream [] None)" for out
    by (simp add: env_prints_def)
  have s: "strip [] = []" by (simp add: strip_def lstrip_def rstrip_def)
  have big: "\<not> check_file_size 524288000 104857600" by (simp add: check_file_size_def)
  have 1: "tail_file (env_prints [] []) profile_var_log ''/var/log/app.log'' =
             follow_phase (env_prints [] []) ''/var/log/app.log'' []
               [Acquire, Exec (cmd_check ''/var/log/app.log'')]"
    using tail_file_size_query [OF v c m, of "[]" "[]" "Stream [] None"] x s by simp
  have 2: "tail_file (env_prints ''abc'' []) profile_var_log ''/var/log/app.log'' =
             \<lparr>records = [''[ERROR] Failed to read remote file: '' @ str_exn (ValueError ''abc'')],
              actions = [Acquire, Exec (cmd_check ''/var/log/app.log'')], ended = True\<rparr>"
    using tail_file_size_query [OF v c m, of "''abc''" "''abc''" "Stream [] None"
        "ValueError ''abc''"] x parse_abc
    by simp
  have 3: "tail_file (env_prints (''524288000'' @ [CHR 0x0A]) []) profile_var_log
               ''/var/log/app.log'' =
             \<lparr>records = [''[ERROR] File too large: '' @ str_int 524288000 @ '' bytes (max: ''
                          @ str_int 104857600 @ '')''],
              actions = [Acquire, Exec (cmd_check ''/var/log/app.log'')], ended = True\<rparr>"
    using tail_file_size_query [OF v c m, of "''524288000'' @ [CHR 0x0A]"
        "''524288000'' @ [CHR 0x0A]" "Stream [] None" _ 524288000] x parse_big big
    by simp
  show ?thesis
    unfolding 1 2 3 str_exn_abc
    using follow_phase_waiting str_big by (simp add: cmd_check_def)
qed

section \<open>Properties of the remote commands\<close>

lemma follow_phase_actions:
  "Exec c \<in> set (actions (follow_phase env p recs acts)) \<Longrightarrow>
     Exec c \<in> set acts \<or> (c = cmd_tail p \<and> validate_command c)"
  by (auto simp: follow_phase_def read_failed_def split: sum.splits prod.splits if_splits)

lemma tail_file_actions:
  "Exec c \<in> set (actions (tail_file env cfg p)) \<Longrightarrow>
     validate_path (getcwd env) p (case allowed_paths cfg of None \<Rightarrow> [] | Some a \<Rightarrow> a) \<and>
     (c = cmd_check p \<or> (\<exists>n. c = cmd_history n p) \<or> (c = cmd_tail p \<and> validate_command c))"
  unfolding tail_file_def Let_def
  by (auto simp: read_failed_def
        split: sum.splits prod.splits if_splits stream.splits option.splits
        dest!: follow_phase_actions)

lemma list_files_actions:
  "Exec c \<in> set (snd (list_files env cfg d pat r)) \<Longrightarrow>
     validate_path (getcwd env) d (case allowed_paths cfg of None \<Rightarrow> [] | Some a \<Rightarrow> a) \<and>
     c = cmd_find d pat r \<and> validate_command c"
  unfolding list_files_def Let_def
  by (auto split: sum.splits prod.splits if_splits stream.splits option.splits)

lemma clear_file_actions:
  "Exec c \<in> set (snd (clear_file env cfg p)) \<Longrightarrow>
     validate_path (getcwd env) p (case allowed_paths cfg of None \<Rightarrow> [] | Some a \<Rightarrow> a) \<and>
     c = cmd_truncate p"
  unfolding clear_file_def Let_def
  by (auto split: sum.splits prod.splits if_splits stream.splits option.splits)

lemma cmd_check_rejected: "\<not> validate_command (cmd_check p)"
  by (simp add: validate_command_def cmd_check_def dangerous_chars_def)

lemma cmd_truncate_rejected: "\<not> validate_command (cmd_truncate p)"
proof -
  have "first_token (cmd_truncate p) = ''truncate''"
    by (simp add: first_token_def cmd_truncate_def isspace_def)
  then show ?thesis
    by (simp add: validate_command_def cmd_name_first_token ALLOWED_COMMANDS_def)
qed

text \<open>
  The size query and the truncation of \<open>clear\<close> reach \<open>exec_command\<close> although
  \<open>validate_command\<close> rejects both: \<open>stat\<close> and \<open>truncate\<close> are not on the allow-list,
  and the size query redirects and chains with \<open>||\<close>.
\<close>

theorem remote_commands_unchecked:
  "Exec ''stat -c %s /var/log/app.log 2>/dev/null || echo 0''
     \<in> set (actions (tail_file (env_prints ''0'' []) profile_var_log ''/var/log/app.log'')) \<and>
   \<not> validate_command ''stat -c %s /var/log/app.log 2>/dev/null || echo 0'' \<and>
   Exec ''truncate -s 0 /var/log/app.log''
     \<in> set (snd (clear_file (env_prints [] []) profile_var_log ''/var/log/app.log'')) \<and>
   \<not> validate_command ''truncate -s 0 /var/log/app.log''"
  by code_simp

text \<open>
  Claim C1, as the code has it. Every remote shell invocation of the Remote Tail Adapter
  is issued only after \<open>validate_path\<close> has passed for its target in the same call. The
  follow command and the directory listing are issued only after a passing
  \<open>validate_command\<close> check, so each starts with an allow-listed command and has no
  chaining character. The file-size query and the truncate-to-zero of \<open>clear\<close> are issued
  without a command check, and no command check would pass them.
\<close>

theorem remote_commands_checked:
  "(Exec c \<in> set (actions (tail_file env cfg p)) \<longrightarrow>
      validate_path (getcwd env) p (case allowed_paths cfg of None \<Rightarrow> [] | Some a \<Rightarrow> a) \<and>
      (c = cmd_check p \<or> (\<exists>n. c = cmd_history n p) \<or>
       (c = cmd_tail p \<and> validate_command c))) \<and>
   (Exec c \<in> set (snd (list_files env cfg p pat r)) \<longrightarrow>
      validate_path (getcwd env) p (case allowed_paths cfg of None \<Rightarrow> [] | Some a \<Rightarrow> a) \<and>
      c = cmd_find p pat r \<and> validate_command c) \<and>
   (Exec c \<in> set (snd (clear_file env cfg p)) \<longrightarrow>
      validate_path (getcwd env) p (case allowed_paths cfg of None \<Rightarrow> [] | Some a \<Rightarrow> a) \<and>
      c = cmd_truncate p) \<and>
   \<not> validate_command (cmd_check p) \<and> \<not> validate_command (cmd_truncate p)"
  using tail_file_actions [of c env cfg p] list_files_actions [of c env cfg p pat r]
    clear_file_actions [of c env cfg p] cmd_check_rejected [of p] cmd_truncate_rejected [of p]
  by blast

lemma run_waiting:
  "tail_file (env_prints ''0'' []) profile_var_log ''/var/log/app.log'' =
     \<lparr>records = [],
      actions = [Acquire, Exec ''stat -c %s /var/log/app.log 2>/dev/null || echo 0'',
                 Exec ''tail -f /var/log/app.log''],
      ended = False\<rparr>"
  by code_simp

lemma list_example:
  "list_files (env_prints (''/var/log/a.log'' @ [CHR 0x0A]) []) profile_var_log ''/var/log''
      ''*.log'' False =
     ([''/var/log/a.log''],
      [Acquire, Exec (''find '' @ [CHR 0x27] @ ''/var/log'' @ [CHR 0x27]
                       @ '' -maxdepth 1 -type f -name '' @ [CHR 0x27] @ ''*.log'' @ [CHR 0x27])])"
  by code_simp

lemma clear_example:
  "clear_file (env_prints [] []) profile_var_log ''/var/log/app.log'' =
     (True, [Acquire, Exec ''truncate -s 0 /var/log/app.log''])"
  by code_simp

theorem remote_commands_checked_witness:
  "Exec ''tail -f /var/log/app.log''
     \<in> set (actions (tail_file (env_prints ''0'' []) profile_var_log ''/var/log/app.log'')) \<and>
   validate_command ''tail -f /var/log/app.log'' \<and>
   Exec (cmd_find ''/var/log'' ''*.log'' False)
     \<in> set (snd (list_files (env_prints (''/var/log/a.log'' @ [CHR 0x0A]) []) profile_var_log
                    ''/var/log'' ''*.log'' False)) \<and>
   validate_command (cmd_find ''/var/log'' ''*.log'' False) \<and>
   Exec ''truncate -s 0 /var/log/app.log''
     \<in> set (snd (clear_file (env_prints [] []) profile_var_log ''/var/log/app.log'')) \<and>
   validate_path ''/srv/tail'' ''/var/log/app.log'' [''/var/log'']"
proof -
  have t: "Exec ''tail -f /var/log/app.log''
     \<in> set (actions (tail_file (env_prints ''0'' []) profile_var_log ''/var/log/app.log''))"
    by (simp add: run_waiting)
  have l: "Exec (cmd_find ''/var/log'' ''*.log'' False)
     \<in> set (snd (list_files (env_prints (''/var/log/a.log'' @ [CHR 0x0A]) []) profile_var_log
                    ''/var/log'' ''*.log'' False))"
    using list_example by (simp add: cmd_find_def)
  have c: "Exec ''truncate -s 0 /var/log/app.log''
     \<in> set (snd (clear_file (env_prints [] []) profile_var_log ''/var/log/app.log''))"
    by (simp add: clear_example)
  have v1: "validate_command ''tail -f /var/log/app.log''"
    using t remote_commands_checked [of "''tail -f /var/log/app.log''" "env_prints ''0'' []"
        profile_var_log "''/var/log/app.log''" "''*.log''" False]
    by (simp add: cmd_check_def cmd_history_def cmd_tail_def)
  have v2: "validate_command (cmd_find ''/var/log'' ''*.log'' False)"
    using l remote_commands_checked [of "cmd_find ''/var/log'' ''*.log'' False"
        "env_prints (''/var/log/a.log'' @ [CHR 0x0A]) []" profile_var_log "''/var/log''"
        "''*.log''" False]
    by blast
  have "validate_path (getcwd (env_prints [] [])) ''/var/log/app.log''
          (case allowed_paths profile_var_log of None \<Rightarrow> [] | Some a \<Rightarrow> a)"
    using c remote_commands_checked [of "''truncate -s 0 /var/log/app.log''" "env_prints [] []"
        profile_var_log "''/var/log/app.log''" "''*.log''" False]
    by blast
  then have v3: "validate_path ''/srv/tail'' ''/var/log/app.log'' [''/var/log'']"
    by (simp add: env_prints_def profile_var_log_def)
  show ?thesis using t l c v1 v2 v3 by blast
qed

section \<open>Properties of the follow phase\<close>

lemma follow_lines:
  "follow (map Line ls) = (concat (map (\<lambda>l. if l \<noteq> [] then emit_line l else []) ls), False)"
  by (induction ls) simp_all

lemma follow_lines_error:
  "follow (map Line ls @ ReadError e # later) =
     (concat (map (\<lambda>l. if l \<noteq> [] then emit_line l else []) ls), True)"
  by (induction ls) simp_all

lemma follow_phase_read_error:
  "follow_phase (env\<lparr>readline := map Line ls @ ReadError e # later\<rparr>) p recs acts =
     (if ended (follow_phase (env\<lparr>readline := map Line ls\<rparr>) p recs acts)
      then follow_phase (env\<lparr>readline := map Line ls\<rparr>) p recs acts
      else (follow_phase (env\<lparr>readline := map Line ls\<rparr>) p recs acts)\<lparr>ended := True\<rparr>)"
  by (simp add: follow_phase_def read_failed_def follow_lines follow_lines_error
        split: sum.splits)

lemma follow_phase_acquire:
  "filter (\<lambda>a. a = Acquire) (actions (follow_phase env p recs acts)) =
     filter (\<lambda>a. a = Acquire) acts"
  by (simp add: follow_phase_def read_failed_def split: sum.splits prod.splits)

text \<open>
  A stream whose first read in the follow phase raises: it ends with no record at all,
  so without an \<open>[ERROR]\<close> record.
\<close>

theorem tail_file_read_error_silent:
  "tail_file (env_prints ''0'' [ReadError ''Socket is closed'']) profile_var_log
      ''/var/log/app.log'' =
     \<lparr>records = [],
      actions = [Acquire, Exec ''stat -c %s /var/log/app.log 2>/dev/null || echo 0'',
                 Exec ''tail -f /var/log/app.log''],
      ended = True\<rparr>"
  by code_simp

text \<open>
  Claim C2, as the code has it. For every remote tail stream that has entered the follow
  phase and has read the lines \<open>ls\<close>, an exception raised by the next blocking line read
  ends the stream as it stands: the records and the commands are those of the waiting
  stream, no record is added for the exception, and the connection has been acquired
  once, so no reconnect is attempted inside the stream.
\<close>

theorem tail_file_read_error:
  assumes "\<not> ended (tail_file (env\<lparr>readline := map Line ls\<rparr>) cfg p)"
  shows "tail_file (env\<lparr>readline := map Line ls @ ReadError e # later\<rparr>) cfg p =
           (tail_file (env\<lparr>readline := map Line ls\<rparr>) cfg p)\<lparr>ended := True\<rparr> \<and>
         filter (\<lambda>a. a = Acquire)
           (actions (tail_file (env\<lparr>readline := map Line ls @ ReadError e # later\<rparr>) cfg p)) =
           [Acquire]"
  using assms unfolding tail_file_def Let_def
  by (auto simp: read_failed_def follow_phase_read_error follow_phase_acquire
        split: sum.splits prod.splits if_splits stream.splits option.splits)

lemma run_one_line:
  "tail_file (env_prints ''0'' [Line ''boot ok'']) profile_var_log ''/var/log/app.log'' =
     \<lparr>records = [''boot ok''],
      actions = [Acquire, Exec ''stat -c %s /var/log/app.log 2>/dev/null || echo 0'',
                 Exec ''tail -f /var/log/app.log''],
      ended = False\<rparr>"
  by code_simp

theorem tail_file_read_error_witness:
  "tail_file (env_prints ''0'' [Line ''boot ok'', ReadError ''Socket is closed'']) profile_var_log
      ''/var/log/app.log'' =
     \<lparr>records = [''boot ok''],
      actions = [Acquire, Exec ''stat -c %s /var/log/app.log 2>/dev/null || echo 0'',
                 Exec ''tail -f /var/log/app.log''],
      ended = True\<rparr>"
proof -
  have e: "(env_prints ''0'' [])\<lparr>readline := map Line [''boot ok'']\<rparr> =
             env_prints ''0'' [Line ''boot ok'']"
    and e': "(env_prints ''0'' [])\<lparr>readline := map Line [''boot ok'']
                 @ ReadError ''Socket is closed'' # []\<rparr> =
             env_prints ''0'' [Line ''boot ok'', ReadError ''Socket is closed'']"
    by (simp_all add: env_prints_def)
  have w: "\<not> ended (tail_file ((env_prints ''0'' [])\<lparr>readline := map Line [''boot ok'']\<rparr>)
                       profile_var_log ''/var/log/app.log'')"
    unfolding e by (simp add: run_one_line)
  show ?thesis
    using tail_file_read_error [OF w, of "''Socket is closed''" "[]"]
    unfolding e e' by (simp add: run_one_line)
qed

section \<open>Properties of the pool and of the local tail\<close>

lemma map_of_filter_other:
  "k' \<noteq> k \<Longrightarrow> map_of (filter (\<lambda>(x, _). x \<noteq> k) cs) k' = map_of cs k'"
  by (induction cs) auto

lemma close_and_delete_result:
  assumes "set ks \<subseteq> fst ` set (connections q)" and "distinct ks"
  shows "close_and_delete ks q =
           Some (q\<lparr>closed := closed q @ map (\<lambda>k. client (the (map_of (connections q) k))) ks,
                   connections := filter (\<lambda>e. fst e \<notin> set ks) (connections q)\<rparr>)"
  using assms
proof (induction ks arbitrary: q)
  case Nil
  then show ?case by simp
next
  case (Cons k ks)
  from Cons.prems(1) have "k \<in> fst ` set (connections q)" by simp
  then obtain info where info: "map_of (connections q) k = Some info"
    by (metis map_of_eq_None_iff not_Some_eq)
  define q' where "q' = q\<lparr>closed := closed q @ [client info],
                          connections := filter (\<lambda>(x, _). x \<noteq> k) (connections q)\<rparr>"
  have sub: "set ks \<subseteq> fst ` set (connections q')"
    using Cons.prems by (force simp: q'_def)
  have dis: "distinct ks" using Cons.prems(2) by simp
  have same: "map (\<lambda>x. client (the (map_of (connections q') x))) ks =
              map (\<lambda>x. client (the (map_of (connections q) x))) ks"
  proof (rule map_cong [OF refl])
    fix x assume "x \<in> set ks"
    with Cons.prems(2) have "x \<noteq> k" by auto
    then show "client (the (map_of (connections q') x)) = client (the (map_of (connections q) x))"
      by (simp add: q'_def map_of_filter_other)
  qed
  have rest: "filter (\<lambda>e. fst e \<notin> set ks) (connections q') =
              filter (\<lambda>e. fst e \<notin> set (k # ks)) (connections q)"
    by (auto simp: q'_def intro: filter_cong)
  have "close_and_delete (k # ks) q = close_and_delete ks q'"
    by (simp add: info q'_def)
  also have "\<dots> = Some (q'\<lparr>closed := closed q' @ map (\<lambda>x. client (the (map_of (connections q') x))) ks,
                           connections := filter (\<lambda>e. fst e \<notin> set ks) (connections q')\<rparr>)"
    by (rule Cons.IH [OF sub dis])
  also have "\<dots> = Some (q\<lparr>closed := closed q @ map (\<lambda>x. client (the (map_of (connections q) x))) (k # ks),
                           connections := filter (\<lambda>e. fst e \<notin> set (k # ks)) (connections q)\<rparr>)"
    unfolding same rest by (simp add: q'_def info)
  finally show ?case .
qed

lemma to_remove_idle:
  "to_remove p t = map fst (filter (idle_by_pool p t) (connections p))"
proof -
  have "(\<lambda>(sid, info). t - last_used info > timeout p) = idle_by_pool p t"
    by (auto simp: idle_by_pool_def fun_eq_iff)
  then show ?thesis by (simp add: to_remove_def)
qed

text \<open>
  At time 500 the first entry of the example pool has been idle for 500 seconds: longer
  than the pool's 300 seconds, not longer than the 1000 seconds of its profile. The
  source removes it; \<open>reapIdle\<close> as specified keeps both entries.
\<close>

theorem cleanup_ignores_profile_timeout:
  "cleanup_idle_connections pool_example 500 \<noteq> Some (reapIdle_spec pool_example 500) \<and>
   map fst (connections (reapIdle_spec pool_example 500)) = [''10.0.0.5:22'', ''10.0.0.6:22''] \<and>
   map_option (\<lambda>p. map fst (connections p)) (cleanup_idle_connections pool_example 500) =
     Some [''10.0.0.6:22'']"
  by (simp add: cleanup_idle_connections_def to_remove_def reapIdle_spec_def idle_by_profile_def
        pool_example_def profile_var_log_def)

text \<open>
  Claim C9, as the code has it. \<open>cleanup_idle_connections\<close> removes and closes exactly
  the pooled entries that have been idle longer than the pool's timeout, one value for
  the whole pool, and leaves every other entry and field of the pool unchanged. It never
  fails with a missing key.
\<close>

theorem cleanup_idle_connections_result:
  assumes "distinct (map fst (connections p))"
  shows "cleanup_idle_connections p current_time =
           Some (p\<lparr>closed := closed p @ map (client \<circ> snd)
                                        (filter (idle_by_pool p current_time) (connections p)),
                   connections := filter (\<lambda>e. \<not> idle_by_pool p current_time e)
                                    (connections p)\<rparr>)"
proof -
  let ?idle = "idle_by_pool p current_time"
  let ?ks = "map fst (filter ?idle (connections p))"
  have sub: "set ?ks \<subseteq> fst ` set (connections p)" by auto
  have dis: "distinct ?ks" using assms by (rule distinct_map_filter)
  have look: "map_of (connections p) (fst e) = Some (snd e)" if "e \<in> set (connections p)" for e
    using assms that by (cases e) simp
  have cl: "map (\<lambda>k. client (the (map_of (connections p) k))) ?ks =
            map (client \<circ> snd) (filter ?idle (connections p))"
    by (simp add: look)
  have key: "fst e \<in> set ?ks \<longleftrightarrow> ?idle e" if "e \<in> set (connections p)" for e
  proof
    assume "fst e \<in> set ?ks"
    then obtain x where x: "x \<in> set (connections p)" "?idle x" "fst x = fst e" by auto
    from look [OF x(1)] look [OF that] x(3) have "snd x = snd e" by simp
    with x(3) have "x = e" by (simp add: prod_eq_iff)
    with x(2) show "?idle e" by simp
  next
    assume "?idle e"
    with that show "fst e \<in> set ?ks" by auto
  qed
  have co: "filter (\<lambda>e. fst e \<notin> set ?ks) (connections p) =
            filter (\<lambda>e. \<not> ?idle e) (connections p)"
  proof (rule filter_cong [OF refl])
    fix e assume "e \<in> set (connections p)"
    from key [OF this] show "(fst e \<notin> set ?ks) = (\<not> ?idle e)" by blast
  qed
  show ?thesis
    unfolding cleanup_idle_connections_def to_remove_idle
      close_and_delete_result [OF sub dis] cl co ..
qed

theorem cleanup_idle_connections_result_witness:
  "cleanup_idle_connections pool_example 500 =
     Some \<lparr>max_connections = 10, timeout = 300,
           connections =
             [(''10.0.0.6:22'', \<lparr>client = 2, last_used = 400, config = profile_var_log\<rparr>)],
           closed = [1]\<rparr>"
proof -
  have d: "distinct (map fst (connections pool_example))"
    by (simp add: pool_example_def)
  show ?thesis
    using cleanup_idle_connections_result [OF d, of 500]
    by (simp add: pool_example_def idle_by_pool_def)
qed

text \<open>
  The wait times out while the file, 6 characters long, is shorter than the cursor 120:
  the loop finds that the file exists and waits again. No truncation record is yielded
  and the cursor stays.
\<close>

theorem following_timeout_ignores_size:
  "following 120 [Timeout (Some 6)] = ([], 120, False) \<and>
   following 120 [Timeout (Some 6), Timeout (Some 6)] = ([], 120, False)"
  by simp

text \<open>
  Claim C7, as the code has it. For every local tail stream in the following phase, when
  a change notification wakes the loop and the file's size is smaller than the tracked
  cursor, the session yields the \<open>[SYSTEM]\<close> truncation record, resets the cursor to 0
  and goes on: the records after the sentinel are the lines of the new content from
  offset 0, the stream continues with the remaining wake-ups, and with none left it
  waits, not ended. A wake-up by the time-out of the wait does not compare the size with
  the cursor: whatever the size of the file, the loop waits again with the cursor as it
  was.
\<close>

theorem following_truncation:
  assumes "new_size < current_position"
  shows "following current_position (Changed (Some new_size) (Some content) # wakes) =
           yield_first (''[SYSTEM] File truncated. Reloading...'' # read_from 0 content)
             (following (length content) wakes) \<and>
         following current_position (Changed (Some new_size) None # wakes) =
           yield_first [''[SYSTEM] File truncated. Reloading...''] (following 0 wakes) \<and>
         read_from 0 content = concat (map emit_line (lines_from [] content)) \<and>
         \<not> snd (snd (following current_position [Changed (Some new_size) (Some content)])) \<and>
         following current_position (Timeout (Some new_size) # wakes) =
           following current_position wakes"
  using assms by (simp add: tell_def read_from_def yield_first_def)

lemma emit_fresh: "emit_line ''fresh'' = [''fresh'']" "emit_line ''again'' = [''again'']"
  by code_simp+

theorem following_truncation_witness:
  "following 120 [Changed (Some 6) (Some (''fresh'' @ [CHR 0x0A])),
                  Changed (Some 12) (Some (''fresh'' @ [CHR 0x0A] @ ''again'' @ [CHR 0x0A]))] =
     ([''[SYSTEM] File truncated. Reloading...'', ''fresh'', ''again''], 12, False) \<and>
   following 120 [Timeout (Some 6), Changed (Some 6) (Some (''fresh'' @ [CHR 0x0A]))] =
     ([''[SYSTEM] File truncated. Reloading...'', ''fresh''], 6, False)"
  using following_truncation [of 6 120 "''fresh'' @ [CHR 0x0A]"
      "[Changed (Some 12) (Some (''fresh'' @ [CHR 0x0A] @ ''again'' @ [CHR 0x0A]))]"]
    following_truncation [of 6 120 "''fresh'' @ [CHR 0x0A]"
      "[Changed (Some 6) (Some (''fresh'' @ [CHR 0x0A]))]"]
    following_truncation [of 6 120 "''fresh'' @ [CHR 0x0A]" "[]"]
  by (simp add: read_from_def tell_def yield_first_def emit_fresh)

end
